theory Spec2Isabelle
  imports Main
begin

section \<open>Values and options\<close>

text \<open>
  JavaScript values that flow through \<^verbatim>\<open>Parser.parse\<close>: what \<^verbatim>\<open>JSON.parse\<close> and
  \<^verbatim>\<open>get\<close> return, what a chunk parser returns (possibly an \<^verbatim>\<open>Error\<close> instance), the
  context object and the emitted values. Numbers are never computed on by the parser, so
  their representation is a type parameter. \<open>JError\<close> is an instance of \<^verbatim>\<open>Error\<close> that
  has no \<^verbatim>\<open>then\<close> method. \<open>JThenable b s\<close> is an object with a \<^verbatim>\<open>then\<close> method, a
  promise for instance: \<open>b\<close> tells whether it is an instance of \<^verbatim>\<open>Error\<close>, and \<open>s\<close> what
  awaiting it leads to.
\<close>

datatype 'n jsval =
    JUndefined
  | JNull
  | JBool bool
  | JNum 'n
  | JStr string
  | JArr "'n jsval list"
  | JObj "(string \<times> 'n jsval) list"
  | JError string
  | JThenable bool "'n settles"
and 'n settles =
    Fulfils "'n jsval"
  | Rejects "'n jsval"
  | Never

text \<open>
  A function-valued option, called as \<^verbatim>\<open>f(chunk, context)\<close>. The context is a mutable
  object, so the call returns the context it leaves behind beside its result; \<open>None\<close>
  is a call that throws.
\<close>

type_synonym 'n js_fun = "string \<Rightarrow> 'n jsval \<Rightarrow> ('n jsval \<times> 'n jsval) option"

datatype 'n optval =
    OUndefined
  | OBool bool
  | OStr string
  | OFun "'n js_fun"

text \<open>
  \<^verbatim>\<open>ParserOption\<close> is a plain object read by key, and both the constructor and the
  preset factories combine such objects with the spread operator; a map from property
  names keeps the difference between an absent key and a key holding \<^verbatim>\<open>undefined\<close>.
\<close>

type_synonym 'n ParserOption = "string \<rightharpoonup> 'n optval"

text \<open>Property read \<^verbatim>\<open>options.k\<close>: an absent key reads as \<^verbatim>\<open>undefined\<close>.\<close>

definition opt :: "'n ParserOption \<Rightarrow> string \<Rightarrow> 'n optval" where
  "opt opts k = (case opts k of None \<Rightarrow> OUndefined | Some v \<Rightarrow> v)"

text \<open>JavaScript truthiness, as used by \<^verbatim>\<open>if (this.options.chunkParser)\<close> and
  \<^verbatim>\<open>if (this.options.autoConcat)\<close>.\<close>

fun truthy :: "'n optval \<Rightarrow> bool" where
  "truthy OUndefined = False"
| "truthy (OBool b) = b"
| "truthy (OStr s) = (s \<noteq> [])"
| "truthy (OFun f) = True"

text \<open>\<^verbatim>\<open>v === 's'\<close> against a string literal.\<close>

fun eq_str :: "'n optval \<Rightarrow> string \<Rightarrow> bool" where
  "eq_str (OStr s) t = (s = t)"
| "eq_str _ t = False"

text \<open>Object spread \<^verbatim>\<open>{...a, ...b}\<close>: the keys of \<open>b\<close> win.\<close>

definition spread :: "'n ParserOption \<Rightarrow> 'n ParserOption \<Rightarrow> 'n ParserOption" where
  "spread a b = a ++ b"

definition defaultOptions :: "'n ParserOption" where
  "defaultOptions =
     [''chunkType'' \<mapsto> OStr ''json'',
      ''contentPath'' \<mapsto> OStr ''content'',
      ''autoConcat'' \<mapsto> OBool True]"

section \<open>Presets and construction\<close>

datatype preset = OpenAi | DeepSeek | Dify | DifyApp

text \<open>
  The preset table. The two closures \<^verbatim>\<open>PRESETS.DeepSeek.chunkParser\<close> and
  \<^verbatim>\<open>PRESETS.DifyApp.chunkParser\<close> are parameters: they work on the prototype chain of
  the context object, and nothing below depends on what they compute.
\<close>

fun PRESETS :: "'n js_fun \<Rightarrow> 'n js_fun \<Rightarrow> preset \<Rightarrow> 'n ParserOption" where
  "PRESETS ds da OpenAi =
     [''chunkType'' \<mapsto> OStr ''json'',
      ''contentPath'' \<mapsto> OStr ''choices[0].delta.content'',
      ''autoConcat'' \<mapsto> OBool True,
      ''outputType'' \<mapsto> OStr ''text'']"
| "PRESETS ds da DeepSeek = [''chunkParser'' \<mapsto> OFun ds]"
| "PRESETS ds da Dify =
     [''chunkType'' \<mapsto> OStr ''json'',
      ''contentPath'' \<mapsto> OStr ''answer'',
      ''autoConcat'' \<mapsto> OBool True,
      ''outputType'' \<mapsto> OStr ''text'']"
| "PRESETS ds da DifyApp = [''chunkParser'' \<mapsto> OFun da]"

record 'n Parser =
  options :: "'n ParserOption"

text \<open>\<^verbatim>\<open>constructor(options) { this.options = {...defaultOptions, ...options} }\<close>\<close>

definition new_Parser :: "'n ParserOption \<Rightarrow> 'n Parser" where
  "new_Parser opts = \<lparr>options = spread defaultOptions opts\<rparr>"

text \<open>\<^verbatim>\<open>Parser.PRESETS[p] = (options) => new Parser({...options, ...config})\<close>\<close>

definition Parser_PRESETS ::
  "'n js_fun \<Rightarrow> 'n js_fun \<Rightarrow> preset \<Rightarrow> 'n ParserOption \<Rightarrow> 'n Parser" where
  "Parser_PRESETS ds da p opts = new_Parser (spread opts (PRESETS ds da p))"

section \<open>External primitives\<close>

text \<open>
  The platform and library functions that \<^verbatim>\<open>parse\<close> calls, taken as parameters:
  \<^item> \<open>td_decode\<close>: \<^verbatim>\<open>decoder.decode(value)\<close> of a fresh \<^verbatim>\<open>TextDecoder\<close>, called
    without the \<^verbatim>\<open>stream\<close> option, so each call decodes its buffer on its own;
  \<^item> \<open>str_trim\<close>: \<^verbatim>\<open>String.prototype.trim\<close>;
  \<^item> \<open>JSON_parse\<close>: \<^verbatim>\<open>JSON.parse\<close>, \<open>None\<close> when it throws;
  \<^item> \<open>radash_get\<close>: \<^verbatim>\<open>get(chunk, path)\<close> of radash, given the path value as passed;
    \<open>None\<close> when it throws, \<open>JUndefined\<close> when the path is absent;
  \<^item> \<open>ToString\<close>: the string conversion that \<^verbatim>\<open>+\<close> applies to a non-string operand;
    \<open>None\<close> when it throws, as it does for an object whose \<^verbatim>\<open>toString\<close> and
    \<^verbatim>\<open>valueOf\<close> give no primitive value.
\<close>

record ('b, 'n) env =
  td_decode :: "'b \<Rightarrow> string"
  str_trim :: "string \<Rightarrow> string"
  JSON_parse :: "string \<Rightarrow> 'n jsval option"
  radash_get :: "'n jsval \<Rightarrow> 'n optval \<Rightarrow> 'n jsval option"
  ToString :: "'n jsval \<Rightarrow> string option"

section \<open>String operations\<close>

definition startsWith :: "string \<Rightarrow> string \<Rightarrow> bool" where
  "startsWith s p = (take (length p) s = p)"

definition substring :: "string \<Rightarrow> nat \<Rightarrow> string" where
  "substring s n = drop n s"

text \<open>\<^verbatim>\<open>text.split('\n')\<close>: the pieces between line feeds, never an empty array.\<close>

fun split_nl :: "string \<Rightarrow> string list" where
  "split_nl [] = [[]]"
| "split_nl (c # cs) =
     (if c = CHR 0x0A then [] # split_nl cs
      else (case split_nl cs of
              [] \<Rightarrow> [[c]]
            | r # rs \<Rightarrow> (c # r) # rs))"

text \<open>\<^verbatim>\<open>output + chunkContent\<close> with a string on the left: string concatenation with
  the string form of the right operand, or \<open>None\<close> when the conversion throws.\<close>

definition to_text :: "('b, 'n) env \<Rightarrow> 'n jsval \<Rightarrow> string option" where
  "to_text E v = (case v of JStr t \<Rightarrow> Some t | _ \<Rightarrow> ToString E v)"

definition str_plus :: "('b, 'n) env \<Rightarrow> string \<Rightarrow> 'n jsval \<Rightarrow> string option" where
  "str_plus E s v = (case to_text E v of None \<Rightarrow> None | Some t \<Rightarrow> Some (s @ t))"

text \<open>\<^verbatim>\<open>a ?? b\<close>\<close>

fun nullish :: "'n jsval \<Rightarrow> 'n jsval \<Rightarrow> 'n jsval" where
  "nullish JUndefined b = b"
| "nullish JNull b = b"
| "nullish a b = a"

text \<open>\<^verbatim>\<open>v instanceof Error\<close>\<close>

fun is_Error :: "'n jsval \<Rightarrow> bool" where
  "is_Error (JError m) = True"
| "is_Error (JThenable b s) = b"
| "is_Error _ = False"

fun is_thenable :: "'n jsval \<Rightarrow> bool" where
  "is_thenable (JThenable b s) = True"
| "is_thenable _ = False"

text \<open>\<^verbatim>\<open>await v\<close>: a value without \<^verbatim>\<open>then\<close> is its own result; a thenable that
  fulfils with another thenable settles as that one does.\<close>

fun await :: "'n jsval \<Rightarrow> 'n settles" where
  "await (JThenable b (Fulfils v)) = await v"
| "await (JThenable b (Rejects r)) = Rejects r"
| "await (JThenable b Never) = Never"
| "await v = Fulfils v"

section \<open>The parse generator\<close>

text \<open>
  The variables of one \<^verbatim>\<open>parse\<close> call that the record loop updates. The emitted values
  are collected in a list, in the order of the \<^verbatim>\<open>yield\<close>s. Output written to
  \<^verbatim>\<open>console.error\<close> is not part of the model: the consumer of the generator cannot see it.
\<close>

record 'n vars =
  v_output :: string
  v_context :: "'n jsval"

text \<open>How a piece of the loop body is left: on to the next record, or to no further
  value (\<^verbatim>\<open>return\<close>, an exception caught by the outer \<^verbatim>\<open>catch\<close>, or an \<^verbatim>\<open>await\<close>
  that never settles).\<close>

datatype flow = Continue | Return

text \<open>
  \<^verbatim>\<open>yield v\<close> in an \<^verbatim>\<open>async\<close> generator awaits \<open>v\<close> first: the consumer receives what
  \<open>v\<close> fulfils with and the body goes on as \<open>fl\<close> says; when \<open>v\<close> rejects, the
  \<^verbatim>\<open>yield\<close> throws into the outer \<^verbatim>\<open>catch\<close>.
\<close>

definition yield ::
  "'n jsval \<Rightarrow> 'n vars \<Rightarrow> flow \<Rightarrow> 'n jsval list \<times> 'n vars \<times> flow" where
  "yield v st fl =
     (case await v of
        Fulfils w \<Rightarrow> ([w], st, fl)
      | Rejects r \<Rightarrow> ([], st, Return)
      | Never \<Rightarrow> ([], st, Return))"

text \<open>Lines 136 to 147: the fragment of one payload under built-in extraction.\<close>

definition chunkContent :: "('b, 'n) env \<Rightarrow> 'n ParserOption \<Rightarrow> string \<Rightarrow> 'n jsval" where
  "chunkContent E opts data =
     (if eq_str (opt opts ''chunkType'') ''text'' then JStr data
      else (case JSON_parse E (str_trim E data) of
              None \<Rightarrow> JStr []
            | Some chunk \<Rightarrow>
                (case radash_get E chunk
                        (case opt opts ''contentPath'' of OUndefined \<Rightarrow> OStr [] | p \<Rightarrow> p) of
                   None \<Rightarrow> JStr []
                 | Some v \<Rightarrow> nullish v (JStr []))))"

text \<open>Lines 135 to 164: built-in extraction, accumulation and output shape. The
  concatenation of line 151 stands outside the inner \<^verbatim>\<open>try\<close>: when it throws, the outer
  \<^verbatim>\<open>catch\<close> ends the generator and the record emits nothing.\<close>

definition builtin ::
  "('b, 'n) env \<Rightarrow> 'n ParserOption \<Rightarrow> 'n vars \<Rightarrow> string \<Rightarrow> 'n jsval list \<times> 'n vars \<times> flow" where
  "builtin E opts st data =
     (let c = chunkContent E opts data
      in case (if truthy (opt opts ''autoConcat'')
               then (case str_plus E (v_output st) c of
                       None \<Rightarrow> None
                     | Some out \<Rightarrow> Some (st\<lparr>v_output := out\<rparr>, JStr out))
               else Some (st, c)) of
           None \<Rightarrow> ([], st, Return)
         | Some (st', outputText) \<Rightarrow>
             if eq_str (opt opts ''outputType'') ''text'' then yield outputText st' Continue
             else yield (JObj [(''text'', outputText)]) st' Continue)"

text \<open>Lines 127 to 133: the custom parser. Calling a truthy value that is not a
  function throws, as does a parser that throws; both end in the outer \<^verbatim>\<open>catch\<close>.
  The value yielded is awaited; the test of line 130 is on the result as returned.\<close>

definition custom ::
  "'n ParserOption \<Rightarrow> 'n vars \<Rightarrow> string \<Rightarrow> 'n jsval list \<times> 'n vars \<times> flow" where
  "custom opts st data =
     (case opt opts ''chunkParser'' of
        OFun f \<Rightarrow>
          (case f data (v_context st) of
             None \<Rightarrow> ([], st, Return)
           | Some (result, ctx) \<Rightarrow>
               yield result (st\<lparr>v_context := ctx\<rparr>)
                 (if is_Error result then Return else Continue))
      | _ \<Rightarrow> ([], st, Return))"

text \<open>Lines 119 to 164: the body of the record loop.\<close>

definition process_row ::
  "('b, 'n) env \<Rightarrow> 'n ParserOption \<Rightarrow> 'n vars \<Rightarrow> string \<Rightarrow> 'n jsval list \<times> 'n vars \<times> flow" where
  "process_row E opts st row =
     (if \<not> startsWith row ''data:'' then ([], st, Continue)
      else (let data = substring row 5
            in if truthy (opt opts ''chunkParser'') then custom opts st data
               else builtin E opts st data))"

text \<open>Lines 118 to 165: \<^verbatim>\<open>for (let i = 0; i < rows.length; i++)\<close>.\<close>

fun process_rows ::
  "('b, 'n) env \<Rightarrow> 'n ParserOption \<Rightarrow> 'n vars \<Rightarrow> string list \<Rightarrow> 'n jsval list \<times> 'n vars \<times> flow" where
  "process_rows E opts st [] = ([], st, Continue)"
| "process_rows E opts st (row # rows) =
     (case process_row E opts st row of
        (es, st', Return) \<Rightarrow> (es, st', Return)
      | (es, st', Continue) \<Rightarrow>
          (case process_rows E opts st' rows of
             (es', st'', fl) \<Rightarrow> (es @ es', st'', fl)))"

text \<open>
  What \<^verbatim>\<open>await reader.read()\<close> settles to: \<^verbatim>\<open>{done, value}\<close> with an optional buffer,
  or a rejection. A reader is the list of its coming results; once the list is used up
  the stream is closed and every further read gives \<^verbatim>\<open>{done: true, value: undefined}\<close>.
\<close>

datatype 'b read_result = Read bool "'b option" | ReadError

text \<open>Lines 112 to 117: the rows of one read and the text held back.\<close>

definition line_buffer ::
  "('b, 'n) env \<Rightarrow> string \<Rightarrow> bool \<Rightarrow> 'b option \<Rightarrow> string list \<times> string" where
  "line_buffer E unfinishedText done v =
     (let text = unfinishedText @ (case v of Some b \<Rightarrow> td_decode E b | None \<Rightarrow> []);
          rows = split_nl text
      in if \<not> done then (butlast rows, if rows = [] then [] else last rows)
         else (rows, unfinishedText))"

text \<open>Lines 110 to 169: \<^verbatim>\<open>while (true)\<close>. The result is the emitted values and the
  reads that were never requested.\<close>

fun read_loop ::
  "('b, 'n) env \<Rightarrow> 'n ParserOption \<Rightarrow> string \<Rightarrow> 'n vars \<Rightarrow> 'b read_result list
     \<Rightarrow> 'n jsval list \<times> 'b read_result list" where
  "read_loop E opts u st [] =
     (case line_buffer E u True None of
        (rows, u') \<Rightarrow> (fst (process_rows E opts st rows), []))"
| "read_loop E opts u st (ReadError # rest) = ([], rest)"
| "read_loop E opts u st (Read done v # rest) =
     (case line_buffer E u done v of
        (rows, u') \<Rightarrow>
          (case process_rows E opts st rows of
             (es, st', Return) \<Rightarrow> (es, rest)
           | (es, st', Continue) \<Rightarrow>
               if done then (es, rest)
               else (case read_loop E opts u' st' rest of
                       (es', rest') \<Rightarrow> (es @ es', rest'))))"

definition parse ::
  "('b, 'n) env \<Rightarrow> 'n Parser \<Rightarrow> 'b read_result list \<Rightarrow> 'n jsval list \<times> 'b read_result list" where
  "parse E P reader =
     read_loop E (options P) [] \<lparr>v_output = [], v_context = JObj []\<rparr> reader"

text \<open>
  The records of the line-buffering decoder alone: the rows that the iterations of the
  read loop hand to the record loop, one read after the other, when no record ends the
  generator early.
\<close>

fun records :: "('b, 'n) env \<Rightarrow> string \<Rightarrow> 'b read_result list \<Rightarrow> string list" where
  "records E u [] = fst (line_buffer E u True None)"
| "records E u (ReadError # rest) = []"
| "records E u (Read done v # rest) =
     (case line_buffer E u done v of
        (rows, u') \<Rightarrow> if done then rows else rows @ records E u' rest)"

text \<open>A stream of buffers that ends normally.\<close>

definition chunks :: "'b list \<Rightarrow> 'b read_result list" where
  "chunks bs = map (\<lambda>b. Read False (Some b)) bs"

section \<open>Observations on a run\<close>

text \<open>The records that carry a payload, and the fragments that built-in extraction
  reads from them.\<close>

definition data_rows :: "string list \<Rightarrow> string list" where
  "data_rows rows = filter (\<lambda>r. startsWith r ''data:'') rows"

definition fragments :: "('b, 'n) env \<Rightarrow> 'n ParserOption \<Rightarrow> string list \<Rightarrow> 'n jsval list" where
  "fragments E opts rows = map (\<lambda>r. chunkContent E opts (substring r 5)) (data_rows rows)"

text \<open>Whether built-in extraction gets a value out for a fragment: under
  \<^verbatim>\<open>autoConcat\<close> the fragment must have a string form; otherwise, when it is yielded
  as it is, awaiting it must give a value.\<close>

definition fragment_emits :: "('b, 'n) env \<Rightarrow> 'n ParserOption \<Rightarrow> 'n jsval \<Rightarrow> bool" where
  "fragment_emits E opts f =
     (if truthy (opt opts ''autoConcat'') then to_text E f \<noteq> None
      else if eq_str (opt opts ''outputType'') ''text''
      then (case await f of Fulfils w \<Rightarrow> True | Rejects r \<Rightarrow> False | Never \<Rightarrow> False)
      else True)"


section \<open>A concrete instance of the primitives\<close>

text \<open>
  Enough of the primitives to run \<^verbatim>\<open>parse\<close> on concrete streams: buffers that are
  already text, trimming of ASCII white space, a JSON reader that knows \<^verbatim>\<open>{}\<close>,
  \<^verbatim>\<open>{"content":{"toString":1}}\<close> and objects of the form \<^verbatim>\<open>{"content":"..."}\<close>, a lookup
  of one top-level key, and the string conversion of objects read from JSON: it throws
  when the object has a \<^verbatim>\<open>toString\<close> property of its own, which JSON cannot make
  callable, and gives \<^verbatim>\<open>[object Object]\<close> otherwise.
\<close>

definition sample_trim :: "string \<Rightarrow> string" where
  "sample_trim s =
     (let ws = (\<lambda>c. c \<in> set [CHR 0x20, CHR 0x09, CHR 0x0A, CHR 0x0D])
      in rev (dropWhile ws (rev (dropWhile ws s))))"

definition sample_JSON_parse :: "string \<Rightarrow> nat jsval option" where
  \<open>sample_JSON_parse s =
     (if s = ''{}'' then Some (JObj [])
      else if s = ''{"content":{"toString":1}}''
      then Some (JObj [(''content'', JObj [(''toString'', JNum 1)])])
      else if 14 \<le> length s \<and> take 12 s = ''{"content":"'' \<and> drop (length s - 2) s = ''"}''
      then Some (JObj [(''content'', JStr (take (length s - 14) (drop 12 s)))])
      else None)\<close>

definition sample_get :: "nat jsval \<Rightarrow> nat optval \<Rightarrow> nat jsval option" where
  "sample_get chunk path =
     (case path of
        OStr k \<Rightarrow>
          (if k = [] then Some chunk
           else (case chunk of
                   JObj kvs \<Rightarrow> Some (case map_of kvs k of None \<Rightarrow> JUndefined | Some v \<Rightarrow> v)
                 | _ \<Rightarrow> Some JUndefined))
      | _ \<Rightarrow> None)"

definition sample_ToString :: "nat jsval \<Rightarrow> string option" where
  "sample_ToString v =
     (case v of
        JObj kvs \<Rightarrow> (if map_of kvs ''toString'' = None then Some ''[object Object]'' else None)
      | _ \<Rightarrow> Some ''[object Object]'')"

definition sample_env :: "(string, nat) env" where
  "sample_env =
     \<lparr>td_decode = (\<lambda>b. b), str_trim = sample_trim, JSON_parse = sample_JSON_parse,
      radash_get = sample_get, ToString = sample_ToString\<rparr>"

text \<open>
  A decoder of bytes for the same streams, with JavaScript text written in UTF-8, so that
  U+FFFD is the three bytes EF BF BD. It knows sequences of one and two bytes; every
  other byte, a lead byte at the end of the buffer included, becomes U+FFFD, as in a
  \<^verbatim>\<open>TextDecoder\<close> that decodes each buffer on its own.
\<close>

fun sample_utf8 :: "string \<Rightarrow> string" where
  "sample_utf8 [] = []"
| "sample_utf8 [b] =
     (if (of_char b :: nat) < 0x80 then [b] else [CHR 0xEF, CHR 0xBF, CHR 0xBD])"
| "sample_utf8 (b # c # bs) =
     (if (of_char b :: nat) < 0x80 then b # sample_utf8 (c # bs)
      else if 0xC2 \<le> (of_char b :: nat) \<and> (of_char b :: nat) \<le> 0xDF
              \<and> 0x80 \<le> (of_char c :: nat) \<and> (of_char c :: nat) \<le> 0xBF
      then b # c # sample_utf8 bs
      else [CHR 0xEF, CHR 0xBF, CHR 0xBD] @ sample_utf8 (c # bs))"

definition sample_bytes_env :: "(string, nat) env" where
  "sample_bytes_env = sample_env\<lparr>td_decode := sample_utf8\<rparr>"

section \<open>Line reassembly\<close>

lemma split_nl_nonempty: "split_nl s \<noteq> []"
  by (induction s) (auto split: list.splits)

lemma split_nl_Cons:
  "c \<noteq> CHR 0x0A \<Longrightarrow> split_nl (c # cs) = (c # hd (split_nl cs)) # tl (split_nl cs)"
  using split_nl_nonempty [of cs] by (cases "split_nl cs") auto

lemma split_nl_append:
  "split_nl (a @ b) = butlast (split_nl a) @ split_nl (last (split_nl a) @ b)"
proof (induction a)
  case Nil
  show ?case by simp
next
  case (Cons c cs)
  show ?case
  proof (cases "c = CHR 0x0A")
    case True
    then show ?thesis using Cons split_nl_nonempty [of cs] by simp
  next
    case False
    obtain r rs where rs: "split_nl cs = r # rs"
      using split_nl_nonempty [of cs] by (cases "split_nl cs") auto
    show ?thesis
    proof (cases rs)
      case Nil
      with rs Cons have "split_nl (cs @ b) = split_nl (r @ b)" by simp
      with False rs Nil show ?thesis by (simp add: split_nl_Cons)
    next
      case (Cons r' rs')
      with rs Cons.IH have "split_nl (cs @ b) = r # butlast rs @ split_nl (last rs @ b)" by simp
      with False rs Cons show ?thesis by simp
    qed
  qed
qed

lemma split_nl_no_newline: "CHR 0x0A \<notin> set s \<Longrightarrow> split_nl s = [s]"
  by (induction s) auto

lemma split_nl_at_newline: "split_nl (a @ CHR 0x0A # s) = split_nl a @ split_nl s"
proof (induction a)
  case Nil
  show ?case by simp
next
  case (Cons c a)
  show ?case
  proof (cases "c = CHR 0x0A")
    case True
    with Cons show ?thesis by simp
  next
    case False
    have "split_nl ((c # a) @ CHR 0x0A # s) =
        (c # hd (split_nl a @ split_nl s)) # tl (split_nl a @ split_nl s)"
      using False Cons by (simp add: split_nl_Cons del: split_nl.simps)
    also have "\<dots> = ((c # hd (split_nl a)) # tl (split_nl a)) @ split_nl s"
      using split_nl_nonempty [of a] by simp
    also have "\<dots> = split_nl (c # a) @ split_nl s"
      using False by (simp add: split_nl_Cons del: split_nl.simps)
    finally show ?thesis .
  qed
qed

lemma last_split_nl:
  "last (split_nl t) = rev (takeWhile (\<lambda>c. c \<noteq> CHR 0x0A) (rev t))"
proof -
  let ?P = "\<lambda>c. c \<noteq> CHR 0x0A"
  let ?s = "rev (takeWhile ?P (rev t))"
  have s: "CHR 0x0A \<notin> set ?s"
    using set_takeWhileD [of "CHR 0x0A" ?P "rev t"] by auto
  have t: "t = rev (dropWhile ?P (rev t)) @ ?s"
    by (metis rev_append rev_rev_ident takeWhile_dropWhile_id)
  show ?thesis
  proof (cases "dropWhile ?P (rev t)")
    case Nil
    with t have "t = ?s" by simp
    with s have "split_nl t = [?s]" using split_nl_no_newline by metis
    then show ?thesis by simp
  next
    case (Cons x xs)
    have "\<not> ?P (hd (dropWhile ?P (rev t)))"
      using Cons hd_dropWhile [of ?P "rev t"] by simp
    with Cons have x: "x = CHR 0x0A" by simp
    from t Cons x have "t = rev xs @ CHR 0x0A # ?s" by simp
    then have "split_nl t = split_nl (rev xs) @ split_nl ?s"
      using split_nl_at_newline by metis
    with s show ?thesis by (simp add: split_nl_no_newline)
  qed
qed

lemma line_buffer_open:
  "line_buffer E u False (Some b) =
     (butlast (split_nl (u @ td_decode E b)), last (split_nl (u @ td_decode E b)))"
  by (simp add: line_buffer_def Let_def split_nl_nonempty)

lemma records_chunks:
  "records E u (chunks bs) = split_nl (u @ concat (map (td_decode E) bs))"
proof (induction bs arbitrary: u)
  case Nil
  show ?case by (simp add: chunks_def line_buffer_def)
next
  case (Cons b bs)
  have "records E u (chunks (b # bs)) =
      butlast (split_nl (u @ td_decode E b)) @ records E (last (split_nl (u @ td_decode E b))) (chunks bs)"
    by (simp add: chunks_def line_buffer_open)
  also have "\<dots> = split_nl ((u @ td_decode E b) @ concat (map (td_decode E) bs))"
    by (simp only: Cons.IH split_nl_append [symmetric])
  finally show ?case by simp
qed

lemma split_nl_join:
  "concat (map (\<lambda>r. r @ [CHR 0x0A]) (split_nl t)) = t @ [CHR 0x0A]"
proof (induction t)
  case Nil
  show ?case by simp
next
  case (Cons c cs)
  show ?case
  proof (cases "c = CHR 0x0A")
    case True
    with Cons show ?thesis by simp
  next
    case False
    obtain r rs where rs: "split_nl cs = r # rs"
      using split_nl_nonempty [of cs] by (cases "split_nl cs") auto
    with Cons False show ?thesis by simp
  qed
qed

lemma split_nl_inj:
  assumes "split_nl a = split_nl b"
  shows "a = b"
proof -
  have "a @ [CHR 0x0A] = concat (map (\<lambda>r. r @ [CHR 0x0A]) (split_nl a))"
    by (simp only: split_nl_join)
  also have "\<dots> = concat (map (\<lambda>r. r @ [CHR 0x0A]) (split_nl b))"
    by (simp only: assms)
  also have "\<dots> = b @ [CHR 0x0A]"
    by (rule split_nl_join)
  finally show ?thesis by simp
qed

section \<open>The record loop\<close>



subsection \<open>Yielding\<close>

lemma await_plain: "\<not> is_thenable v \<Longrightarrow> await v = Fulfils v"
  by (cases v) auto

lemma yield_plain: "\<not> is_thenable v \<Longrightarrow> yield v st fl = ([v], st, fl)"
  by (simp add: yield_def await_plain)

lemma yield_cases:
  "yield v st fl = ([], st, Return) \<or> (\<exists>w. await v = Fulfils w \<and> yield v st fl = ([w], st, fl))"
  by (simp add: yield_def split: settles.splits)

lemma yield_length: "length (fst (yield v st fl)) \<le> Suc 0"
  using yield_cases [of v st fl] by auto

lemma custom_length: "length (fst (custom opts st data)) \<le> 1"
  by (simp add: custom_def yield_length split: optval.splits option.splits prod.splits)

lemma builtin_cases:
  "builtin E opts st data = ([], st, Return)
   \<or> (\<exists>e st'. builtin E opts st data = ([e], st', Continue))"
proof -
  have y: "\<And>v s. yield v s Continue = ([], s, Return) \<or> (\<exists>w. yield v s Continue = ([w], s, Continue))"
    using yield_cases by blast
  show ?thesis
  proof (cases "truthy (opt opts ''autoConcat'')")
    case True
    then show ?thesis
      by (cases "str_plus E (v_output st) (chunkContent E opts data)")
        (simp_all add: builtin_def Let_def yield_plain)
  next
    case False
    show ?thesis
    proof (cases "eq_str (opt opts ''outputType'') ''text''")
      case True
      with False y [of "chunkContent E opts data" st] show ?thesis
        by (auto simp: builtin_def Let_def)
    next
      case notext: False
      with False show ?thesis
        by (simp add: builtin_def Let_def yield_plain)
    qed
  qed
qed

lemma builtin_length: "length (fst (builtin E opts st data)) \<le> 1"
  using builtin_cases [of E opts st data] by auto

lemma process_row_length:
  "length (fst (process_row E opts st row)) \<le> (if startsWith row ''data:'' then 1 else 0)"
  using custom_length [of opts st "substring row 5"] builtin_length [of E opts st "substring row 5"]
  by (simp add: process_row_def Let_def)

lemma process_rows_length_le:
  "length (fst (process_rows E opts st rows)) \<le> length (data_rows rows)"
proof (induction rows arbitrary: st)
  case Nil
  show ?case by (simp add: data_rows_def)
next
  case (Cons row rows)
  obtain es st' fl where r: "process_row E opts st row = (es, st', fl)"
    by (cases "process_row E opts st row") auto
  have l: "length es \<le> (if startsWith row ''data:'' then 1 else 0)"
    using process_row_length [of E opts st row] r by simp
  show ?case
  proof (cases fl)
    case Return
    with r l show ?thesis by (simp add: data_rows_def split: if_splits)
  next
    case Continue
    obtain es' st'' fl' where rs: "process_rows E opts st' rows = (es', st'', fl')"
      by (cases "process_rows E opts st' rows") auto
    have "length es' \<le> length (data_rows rows)"
      using Cons.IH [of st'] rs by simp
    with r l Continue rs show ?thesis by (simp add: data_rows_def split: if_splits)
  qed
qed

lemma startsWith_data:
  assumes "startsWith row ''data:''"
  shows "row = ''data:'' @ substring row 5"
proof -
  have len: "length ''data:'' = 5"
    by simp
  have "take (length ''data:'') row = ''data:''"
    using assms unfolding startsWith_def .
  then have "take 5 row = ''data:''"
    unfolding len .
  then show ?thesis
    unfolding substring_def by (metis append_take_drop_id)
qed

subsection \<open>Built-in extraction\<close>

lemma process_row_builtin:
  "\<not> truthy (opt opts ''chunkParser'') \<Longrightarrow>
   process_row E opts st row =
     (if startsWith row ''data:'' then builtin E opts st (substring row 5) else ([], st, Continue))"
  by (simp add: process_row_def Let_def)

lemma process_rows_Cons_builtin:
  assumes "\<not> truthy (opt opts ''chunkParser'')"
    and "builtin E opts st (substring row 5) = ([e], st', Continue)"
  shows "process_rows E opts st (row # rows) =
     (if startsWith row ''data:''
      then (e # fst (process_rows E opts st' rows), snd (process_rows E opts st' rows))
      else process_rows E opts st rows)"
  using assms by (simp add: process_row_builtin split: prod.splits flow.splits)


lemma builtin_autoConcat:
  "truthy (opt opts ''autoConcat'') \<Longrightarrow>
   builtin E opts st data =
     (case to_text E (chunkContent E opts data) of
        None \<Rightarrow> ([], st, Return)
      | Some t \<Rightarrow>
          ([if eq_str (opt opts ''outputType'') ''text'' then JStr (v_output st @ t)
            else JObj [(''text'', JStr (v_output st @ t))]],
           st\<lparr>v_output := v_output st @ t\<rparr>, Continue))"
  by (simp add: builtin_def Let_def str_plus_def yield_plain split: option.splits)

lemma builtin_emits:
  assumes "fragment_emits E opts (chunkContent E opts data)"
  shows "\<exists>e st'. builtin E opts st data = ([e], st', Continue)"
proof (cases "truthy (opt opts ''autoConcat'')")
  case True
  with assms show ?thesis
    by (auto simp: builtin_autoConcat fragment_emits_def)
next
  case False
  with assms show ?thesis
    by (auto simp: builtin_def Let_def fragment_emits_def yield_def yield_plain
        split: settles.splits if_splits)
qed

lemma builtin_empty:
  assumes "chunkContent E opts data = JStr []"
  shows "builtin E opts st data =
     ([if eq_str (opt opts ''outputType'') ''text''
       then JStr (if truthy (opt opts ''autoConcat'') then v_output st else [])
       else JObj [(''text'', JStr (if truthy (opt opts ''autoConcat'') then v_output st else []))]],
      st, Continue)"
  using assms by (simp add: builtin_def Let_def str_plus_def to_text_def yield_plain)

lemma fragments_Cons:
  "fragments E opts (row # rows) =
     (if startsWith row ''data:''
      then chunkContent E opts (substring row 5) # fragments E opts rows
      else fragments E opts rows)"
  by (simp add: fragments_def data_rows_def)

lemma fragments_append:
  "fragments E opts (xs @ ys) = fragments E opts xs @ fragments E opts ys"
  by (simp add: fragments_def data_rows_def)


lemma process_rows_emits:
  assumes "\<not> truthy (opt opts ''chunkParser'')"
  shows "\<forall>f \<in> set (fragments E opts rows). fragment_emits E opts f \<Longrightarrow>
     length (fst (process_rows E opts st rows)) = length (data_rows rows)
     \<and> snd (snd (process_rows E opts st rows)) = Continue"
proof (induction rows arbitrary: st)
  case Nil
  show ?case by (simp add: data_rows_def)
next
  case (Cons row rows)
  show ?case
  proof (cases "startsWith row ''data:''")
    case False
    have "process_rows E opts st (row # rows) = process_rows E opts st rows"
      using False assms by (simp add: process_row_builtin split: prod.splits)
    moreover have "\<forall>f \<in> set (fragments E opts rows). fragment_emits E opts f"
      using Cons.prems False by (simp add: fragments_Cons)
    ultimately show ?thesis
      using Cons.IH [of st] False by (simp add: data_rows_def)
  next
    case True
    have "fragment_emits E opts (chunkContent E opts (substring row 5))"
      using Cons.prems True by (simp add: fragments_Cons)
    then obtain e st' where b: "builtin E opts st (substring row 5) = ([e], st', Continue)"
      using builtin_emits by blast
    have "\<forall>f \<in> set (fragments E opts rows). fragment_emits E opts f"
      using Cons.prems True by (simp add: fragments_Cons)
    then show ?thesis
      using Cons.IH [of st'] True
      by (simp del: process_rows.simps add: process_rows_Cons_builtin [OF assms b] data_rows_def)
  qed
qed



lemma read_loop_builtin_reads:
  assumes "\<not> truthy (opt opts ''chunkParser'')"
  shows "\<forall>f \<in> set (fragments E opts (records E u (chunks bs))). fragment_emits E opts f \<Longrightarrow>
     snd (read_loop E opts u st (chunks bs)) = []"
proof (induction bs arbitrary: u st)
  case Nil
  show ?case by (simp add: chunks_def split: prod.splits)
next
  case (Cons b bs)
  obtain rows u' where lb: "line_buffer E u False (Some b) = (rows, u')"
    by (cases "line_buffer E u False (Some b)") auto
  have rec: "records E u (chunks (b # bs)) = rows @ records E u' (chunks bs)"
    using lb by (simp add: chunks_def)
  have "\<forall>f \<in> set (fragments E opts rows). fragment_emits E opts f"
    using Cons.prems unfolding rec by (simp add: fragments_append)
  then have "snd (snd (process_rows E opts st rows)) = Continue"
    using process_rows_emits [OF assms] by blast
  then obtain es st' where pr: "process_rows E opts st rows = (es, st', Continue)"
    by (cases "process_rows E opts st rows") auto
  have "\<forall>f \<in> set (fragments E opts (records E u' (chunks bs))). fragment_emits E opts f"
    using Cons.prems unfolding rec by (simp add: fragments_append)
  then have "snd (read_loop E opts u' st' (chunks bs)) = []"
    by (rule Cons.IH)
  then show ?case
    using lb pr by (auto simp: chunks_def split: prod.splits)
qed

subsection \<open>Custom parsers\<close>





subsection \<open>Options that the generator never reads\<close>

lemma opt_cong:
  assumes "\<forall>k. k \<noteq> ''validateChunk'' \<longrightarrow> o1 k = o2 k"
    and "k \<noteq> ''validateChunk''"
  shows "opt o1 k = opt o2 k"
  using assms by (simp add: opt_def)

lemma process_row_cong:
  assumes "\<forall>k. k \<noteq> ''validateChunk'' \<longrightarrow> o1 k = o2 k"
  shows "process_row E o1 st row = process_row E o2 st row"
proof -
  have eqs: "opt o1 ''chunkParser'' = opt o2 ''chunkParser''"
    "opt o1 ''chunkType'' = opt o2 ''chunkType''"
    "opt o1 ''contentPath'' = opt o2 ''contentPath''"
    "opt o1 ''autoConcat'' = opt o2 ''autoConcat''"
    "opt o1 ''outputType'' = opt o2 ''outputType''"
    using assms by (simp_all add: opt_cong)
  show ?thesis
    by (simp only: process_row_def builtin_def custom_def chunkContent_def eqs)
qed

lemma process_rows_cong:
  assumes "\<forall>k. k \<noteq> ''validateChunk'' \<longrightarrow> o1 k = o2 k"
  shows "process_rows E o1 st rows = process_rows E o2 st rows"
  by (induction rows arbitrary: st) (simp_all add: process_row_cong [OF assms])

lemma read_loop_cong:
  assumes "\<forall>k. k \<noteq> ''validateChunk'' \<longrightarrow> o1 k = o2 k"
  shows "read_loop E o1 u st reader = read_loop E o2 u st reader"
proof (induction reader arbitrary: u st)
  case Nil
  show ?case by (simp add: process_rows_cong [OF assms])
next
  case (Cons r reader)
  then show ?case
    by (cases r) (auto simp: process_rows_cong [OF assms] split: prod.splits flow.splits)
qed

section \<open>Output shape without an explicit output type\<close>

text \<open>
  C1. The claim: a parser built without \<^verbatim>\<open>outputType\<close> emits plain strings, because
  \<^verbatim>\<open>outputType\<close> defaults to \<^verbatim>\<open>'text'\<close>. The run below is the code on
  \<^verbatim>\<open>new Parser({})\<close> and the one-record stream \<^verbatim>\<open>data:{"content":"hi"}\<close>:
  \<^verbatim>\<open>defaultOptions\<close> has no \<^verbatim>\<open>outputType\<close>, the resolved options have none either,
  and the value emitted is the object \<^verbatim>\<open>{text: 'hi'}\<close>; the plain string \<^verbatim>\<open>'hi'\<close> comes
  out only when \<^verbatim>\<open>outputType: 'text'\<close> is passed.
\<close>

theorem C1_default_outputType_run:
  \<open>options (new_Parser Map.empty) ''outputType'' = None
   \<and> parse sample_env (new_Parser Map.empty) (chunks [''data:{"content":"hi"}''])
       = ([JObj [(''text'', JStr ''hi'')]], [])
   \<and> parse sample_env (new_Parser [''outputType'' \<mapsto> OStr ''text''])
         (chunks [''data:{"content":"hi"}''])
       = ([JStr ''hi''], [])\<close>
  by (simp add: parse_def new_Parser_def spread_def defaultOptions_def chunks_def line_buffer_def
      sample_env_def process_row_def startsWith_def substring_def opt_def builtin_def
      chunkContent_def sample_trim_def sample_JSON_parse_def sample_get_def
      str_plus_def to_text_def yield_def Let_def)

section \<open>Preset precedence\<close>

text \<open>
  C2. For every preset factory and every options bundle of the caller, each key of the
  resolved configuration holds the preset's value when the preset has the key, else the
  caller's value when the caller gave the key, else the default. So
  \<^verbatim>\<open>Parser.PRESETS.OpenAi({contentPath: 'x'})\<close> resolves \<^verbatim>\<open>contentPath\<close> to
  \<^verbatim>\<open>'choices[0].delta.content'\<close>.
\<close>

theorem C2_preset_precedence:
  "options (Parser_PRESETS ds da p opts) k =
     (case PRESETS ds da p k of
        Some v \<Rightarrow> Some v
      | None \<Rightarrow> (case opts k of Some v \<Rightarrow> Some v | None \<Rightarrow> defaultOptions k))
   \<and> options (Parser_PRESETS ds da OpenAi [''contentPath'' \<mapsto> OStr ''x'']) ''contentPath''
       = Some (OStr ''choices[0].delta.content'')"
  by (simp add: Parser_PRESETS_def new_Parser_def spread_def map_add_def split: option.splits)

section \<open>Accumulation\<close>



section \<open>Split invariance of the records\<close>

text \<open>
  C4. The claim: however a stream is cut into reads, the line-buffering decoder produces
  the records of the single read. The records of a sequence of reads are the pieces
  between line feeds of the concatenation of the texts that the buffers decode to, each
  on its own; so the records of two deliveries agree exactly when these texts agree.
  The decoder of line 112 is called without the \<^verbatim>\<open>stream\<close> option, and a buffer that
  ends inside a character of several bytes does not decode to a part of the text of the
  whole. The run below is the code on the eight bytes of \<^verbatim>\<open>data:\<close>, C3 A9 (the letter e
  with acute accent) and a line feed: delivered in one read the first record is the text
  sent, delivered as six bytes and two it holds U+FFFD twice in the place of the letter.
\<close>

theorem C4_line_reassembly:
  "(records E [] (chunks bs) = records E [] (chunks [b]))
     = (concat (map (td_decode E) bs) = td_decode E b)
   \<and> records E [] (chunks bs) = split_nl (concat (map (td_decode E) bs))
   \<and> records sample_bytes_env [] (chunks [''data:'' @ [CHR 0xC3, CHR 0xA9, CHR 0x0A]])
       = [''data:'' @ [CHR 0xC3, CHR 0xA9], []]
   \<and> records sample_bytes_env [] (chunks [''data:'' @ [CHR 0xC3], [CHR 0xA9, CHR 0x0A]])
       = [''data:'' @ [CHR 0xEF, CHR 0xBF, CHR 0xBD, CHR 0xEF, CHR 0xBF, CHR 0xBD], []]"
proof (intro conjI)
  show "(records E [] (chunks bs) = records E [] (chunks [b]))
     = (concat (map (td_decode E) bs) = td_decode E b)"
    using split_nl_inj [of "concat (map (td_decode E) bs)" "td_decode E b"]
    by (auto simp: records_chunks)
next
  show "records E [] (chunks bs) = split_nl (concat (map (td_decode E) bs))"
    by (simp add: records_chunks)
next
  show "records sample_bytes_env [] (chunks [''data:'' @ [CHR 0xC3, CHR 0xA9, CHR 0x0A]])
       = [''data:'' @ [CHR 0xC3, CHR 0xA9], []]"
    by (simp add: records_chunks sample_bytes_env_def sample_env_def)
next
  show "records sample_bytes_env [] (chunks [''data:'' @ [CHR 0xC3], [CHR 0xA9, CHR 0x0A]])
       = [''data:'' @ [CHR 0xEF, CHR 0xBF, CHR 0xBD, CHR 0xEF, CHR 0xBF, CHR 0xBD], []]"
    by (simp add: records_chunks sample_bytes_env_def sample_env_def)
qed

section \<open>End of stream\<close>

text \<open>
  C5. On a read that reports done, every piece of the split text is handed to the record
  loop, the last one included, which is the text after the last line feed; the loop
  then ends and requests no further read. A reader that is used up behaves the same.
\<close>

theorem C5_end_of_stream:
  "read_loop E opts u st (Read True v # rest) =
     (fst (process_rows E opts st
        (split_nl (u @ (case v of Some b \<Rightarrow> td_decode E b | None \<Rightarrow> [])))), rest)
   \<and> records E u (Read True v # rest) =
       split_nl (u @ (case v of Some b \<Rightarrow> td_decode E b | None \<Rightarrow> []))
   \<and> last (records E u (Read True v # rest)) =
       rev (takeWhile (\<lambda>c. c \<noteq> CHR 0x0A)
             (rev (u @ (case v of Some b \<Rightarrow> td_decode E b | None \<Rightarrow> []))))
   \<and> read_loop E opts u st [] = (fst (process_rows E opts st (split_nl u)), [])"
  by (simp add: line_buffer_def Let_def last_split_nl split: prod.splits flow.splits)

section \<open>The data prefix\<close>

text \<open>
  C6. A record that does not begin with \<^verbatim>\<open>data:\<close> emits nothing and changes nothing.
  A record that emits a value is \<^verbatim>\<open>data:\<close> followed by its payload, and the payload
  that the custom parser or built-in extraction receives is the record without its
  first five characters, untrimmed. A record loop never emits more values than it has
  records with the prefix.
\<close>

theorem C6_data_prefix:
  "(\<not> startsWith row ''data:'' \<longrightarrow> process_row E opts st row = ([], st, Continue))
   \<and> (fst (process_row E opts st row) \<noteq> [] \<longrightarrow>
        (\<exists>data. row = ''data:'' @ data \<and> substring row 5 = data \<and>
           process_row E opts st row =
             (if truthy (opt opts ''chunkParser'') then custom opts st data
              else builtin E opts st data)))
   \<and> length (fst (process_rows E opts st rows)) \<le> length (data_rows rows)"
proof (intro conjI impI)
  assume "\<not> startsWith row ''data:''"
  then show "process_row E opts st row = ([], st, Continue)"
    by (simp add: process_row_def)
next
  assume ne: "fst (process_row E opts st row) \<noteq> []"
  then have sw: "startsWith row ''data:''"
    by (auto simp: process_row_def split: if_splits)
  have "row = ''data:'' @ substring row 5"
    using sw by (rule startsWith_data)
  moreover have "process_row E opts st row =
      (if truthy (opt opts ''chunkParser'') then custom opts st (substring row 5)
       else builtin E opts st (substring row 5))"
    using sw by (simp add: process_row_def Let_def)
  ultimately show "\<exists>data. row = ''data:'' @ data \<and> substring row 5 = data \<and>
           process_row E opts st row =
             (if truthy (opt opts ''chunkParser'') then custom opts st data
              else builtin E opts st data)"
    by blast
next
  show "length (fst (process_rows E opts st rows)) \<le> length (data_rows rows)"
    by (rule process_rows_length_le)
qed

theorem C6_data_prefix_witness:
  "\<not> startsWith ''event: x'' ''data:''
   \<and> process_row sample_env [''chunkType'' \<mapsto> OStr ''text'', ''outputType'' \<mapsto> OStr ''text'']
        \<lparr>v_output = [], v_context = JObj []\<rparr> ''event: x''
       = ([], \<lparr>v_output = [], v_context = JObj []\<rparr>, Continue)
   \<and> fst (process_row sample_env [''chunkType'' \<mapsto> OStr ''text'', ''outputType'' \<mapsto> OStr ''text'']
        \<lparr>v_output = [], v_context = JObj []\<rparr> ''data: hi '') = [JStr '' hi '']
   \<and> substring ''data: hi '' 5 = '' hi ''"
  using C6_data_prefix [of "''event: x''" sample_env
      "[''chunkType'' \<mapsto> OStr ''text'', ''outputType'' \<mapsto> OStr ''text'']"
      "\<lparr>v_output = [], v_context = JObj []\<rparr>" "[]"]
    C6_data_prefix [of "''data: hi ''" sample_env
      "[''chunkType'' \<mapsto> OStr ''text'', ''outputType'' \<mapsto> OStr ''text'']"
      "\<lparr>v_output = [], v_context = JObj []\<rparr>" "[]"]
  by (simp add: startsWith_def substring_def process_row_def opt_def builtin_def chunkContent_def
      yield_def Let_def)

section \<open>Malformed JSON\<close>

text \<open>
  C7. Under built-in extraction with \<^verbatim>\<open>chunkType = 'json'\<close>, a payload that
  \<^verbatim>\<open>JSON.parse\<close> rejects gives the empty string as fragment; the record still emits
  one value and the record loop goes on with the next record. A payload that parses but
  lacks the configured path gives the empty string as well. A stream of buffers in which
  every fragment gets a value out, as the empty string does, is read to its end.
\<close>

theorem C7_malformed_json:
  assumes "\<not> truthy (opt opts ''chunkParser'')"
    and "opt opts ''chunkType'' = OStr ''json''"
    and "startsWith row ''data:''"
  shows "(JSON_parse E (str_trim E (substring row 5)) = None \<longrightarrow>
            chunkContent E opts (substring row 5) = JStr []
            \<and> (\<exists>e st'. process_row E opts st row = ([e], st', Continue)
                  \<and> fst (process_rows E opts st (row # rows))
                      = e # fst (process_rows E opts st' rows)))
     \<and> (JSON_parse E (str_trim E (substring row 5)) = Some chunk
          \<and> radash_get E chunk (case opt opts ''contentPath'' of OUndefined \<Rightarrow> OStr [] | p \<Rightarrow> p)
              = Some JUndefined \<longrightarrow>
            chunkContent E opts (substring row 5) = JStr [])
     \<and> fragment_emits E opts (JStr [])
     \<and> ((\<forall>f \<in> set (fragments E opts (records E u (chunks bs))). fragment_emits E opts f) \<longrightarrow>
          snd (read_loop E opts u st (chunks bs)) = [])"
proof (intro conjI impI)
  assume "JSON_parse E (str_trim E (substring row 5)) = None"
  then show "chunkContent E opts (substring row 5) = JStr []"
    using assms(2) by (simp add: chunkContent_def)
next
  assume "JSON_parse E (str_trim E (substring row 5)) = None"
  then have "chunkContent E opts (substring row 5) = JStr []"
    using assms(2) by (simp add: chunkContent_def)
  then obtain e where b: "builtin E opts st (substring row 5) = ([e], st, Continue)"
    using builtin_empty by blast
  have "process_row E opts st row = ([e], st, Continue)"
    using assms(1) assms(3) b by (simp add: process_row_builtin)
  moreover have "fst (process_rows E opts st (row # rows)) = e # fst (process_rows E opts st rows)"
    using assms(3) by (simp del: process_rows.simps add: process_rows_Cons_builtin [OF assms(1) b])
  ultimately show "\<exists>e st'. process_row E opts st row = ([e], st', Continue)
      \<and> fst (process_rows E opts st (row # rows)) = e # fst (process_rows E opts st' rows)"
    by blast
next
  assume "JSON_parse E (str_trim E (substring row 5)) = Some chunk
          \<and> radash_get E chunk (case opt opts ''contentPath'' of OUndefined \<Rightarrow> OStr [] | p \<Rightarrow> p)
              = Some JUndefined"
  then show "chunkContent E opts (substring row 5) = JStr []"
    using assms(2) by (simp add: chunkContent_def)
next
  show "fragment_emits E opts (JStr [])"
    by (simp add: fragment_emits_def to_text_def)
next
  assume "\<forall>f \<in> set (fragments E opts (records E u (chunks bs))). fragment_emits E opts f"
  then show "snd (read_loop E opts u st (chunks bs)) = []"
    using assms(1) read_loop_builtin_reads by blast
qed

theorem C7_malformed_json_witness:
  \<open>\<not> truthy (opt (options (new_Parser Map.empty)) ''chunkParser'')
   \<and> opt (options (new_Parser Map.empty)) ''chunkType'' = OStr ''json''
   \<and> startsWith ''data:{oops'' ''data:''
   \<and> JSON_parse sample_env (str_trim sample_env (substring ''data:{oops'' 5)) = None
   \<and> chunkContent sample_env (options (new_Parser Map.empty)) (substring ''data:{oops'' 5) = JStr []
   \<and> startsWith ''data:{}'' ''data:''
   \<and> JSON_parse sample_env (str_trim sample_env (substring ''data:{}'' 5)) = Some (JObj [])
   \<and> radash_get sample_env (JObj []) (OStr ''content'') = Some JUndefined
   \<and> chunkContent sample_env (options (new_Parser Map.empty)) (substring ''data:{}'' 5) = JStr []
   \<and> fragments sample_env (options (new_Parser Map.empty)) (records sample_env []
         (chunks [''data:{oops'' @ [CHR 0x0A] @ ''data:{"content":"ok"}'' @ [CHR 0x0A]]))
       = [JStr [], JStr ''ok'']
   \<and> parse sample_env (new_Parser Map.empty)
         (chunks [''data:{oops'' @ [CHR 0x0A] @ ''data:{"content":"ok"}'' @ [CHR 0x0A]])
       = ([JObj [(''text'', JStr [])], JObj [(''text'', JStr ''ok'')]], [])\<close>
  using C7_malformed_json [where opts = "options (new_Parser Map.empty)" and row = "''data:{oops''"
      and E = sample_env and chunk = "JObj []" and st = "\<lparr>v_output = [], v_context = JObj []\<rparr>"
      and rows = "[]" and u = "[]"
      and bs = \<open>[''data:{oops'' @ [CHR 0x0A] @ ''data:{"content":"ok"}'' @ [CHR 0x0A]]\<close>]
    C7_malformed_json [where opts = "options (new_Parser Map.empty)" and row = "''data:{}''"
      and E = sample_env and chunk = "JObj []" and st = "\<lparr>v_output = [], v_context = JObj []\<rparr>"
      and rows = "[]" and u = "[]" and bs = "[]"]
  by (simp add: parse_def new_Parser_def spread_def defaultOptions_def chunks_def line_buffer_def
      sample_env_def process_row_def startsWith_def substring_def opt_def builtin_def
      fragments_def data_rows_def chunkContent_def sample_trim_def sample_JSON_parse_def
      sample_get_def str_plus_def to_text_def yield_def Let_def)

section \<open>Error results of a custom parser\<close>



section \<open>The validation hook\<close>

text \<open>
  C9. Without a custom parser, a run does not depend on \<^verbatim>\<open>validateChunk\<close>: whatever
  the caller's options hold under that key, a function, any other value or nothing, the
  emitted values and the reads consumed are those of the run with the caller's options
  as they are.
\<close>

theorem C9_validateChunk_unused:
  "\<not> truthy (opt (options (new_Parser opts)) ''chunkParser'') \<Longrightarrow>
   parse E (new_Parser (opts(''validateChunk'' := x))) reader = parse E (new_Parser opts) reader"
  unfolding parse_def
  by (rule read_loop_cong) (simp add: new_Parser_def spread_def map_add_def)

theorem C9_validateChunk_unused_witness:
  \<open>\<not> truthy (opt (options (new_Parser (Map.empty :: nat ParserOption))) ''chunkParser'')
   \<and> parse sample_env
        (new_Parser [''validateChunk'' \<mapsto> OFun (\<lambda>d c. Some (JError ''invalid'', c))])
        (chunks [''data:{"content":"hi"}''])
     = ([JObj [(''text'', JStr ''hi'')]], [])\<close>
  using C9_validateChunk_unused [of Map.empty sample_env
      "Some (OFun (\<lambda>d c. Some (JError ''invalid'', c)))" \<open>chunks [''data:{"content":"hi"}'']\<close>]
  by (simp add: parse_def new_Parser_def spread_def defaultOptions_def chunks_def line_buffer_def
      sample_env_def process_row_def startsWith_def substring_def opt_def builtin_def
      chunkContent_def sample_trim_def sample_JSON_parse_def sample_get_def
      str_plus_def to_text_def yield_def Let_def)

section \<open>Emissions per data record\<close>




end
